theory Spec2Isabelle
  imports Main "HOL-Library.Char_ord" "HOL-Library.List_Lexorder"
begin

section \<open>Reservation data model\<close>

text \<open>
  The generated workloads package is not part of the sources at hand; the records
  below carry the fields the reservation pipeline and the reservation API read.
  Timestamps (\<open>schema.Date\<close>) are integers on a common time line, Go's \<open>int64\<close>
  identifiers and counters are mathematical integers (no arithmetic on them can
  overflow here: the only counter is bounded by the length of a list).
\<close>

datatype NextActionEnum =
    NextActionCreate
  | NextActionSign
  | NextActionPay
  | NextActionDeploy
  | NextActionDelete
  | NextActionInvalid
  | NextActionDeleted

datatype ResultStateEnum = ResultStateError | ResultStateOK | ResultStateDeleted

record SigningSignature =
  Tid :: int
  Signature :: string
  Epoch :: int

record SigningRequest =
  Signers :: "int list"
  QuorumMin :: int

record Result =
  ResultWorkloadId :: string
  ResultNodeId :: string
  ResultEpoch :: int
  ResultState :: ResultStateEnum
  ResultDataJson :: string
  ResultSignature :: string

text \<open>
  \<open>types.Workload\<close>: a \<open>ReservationWorkload\<close> together with the node it is
  addressed to. The union-typed content is kept as an opaque string.
\<close>

record Workload =
  WorkloadId :: string
  NodeID :: string
  User :: string
  Content :: string
  ToDelete :: bool

text \<open>
  Modelled from the spec: the typed workload lists of \<open>data_reservation\<close>
  (networks, containers, volumes, zdbs, kubernetes, gateway variants) are kept as the
  one list \<open>DataWorkloads\<close> of the workloads they project to.
\<close>

record ReservationData =
  ExpirationProvisioning :: int
  ExpirationReservation :: int
  Currencies :: "string list"
  SigningRequestProvision :: SigningRequest
  SigningRequestDelete :: SigningRequest
  DataWorkloads :: "Workload list"

record Reservation =
  ID :: int
  CustomerTid :: int
  NextAction :: NextActionEnum
  DataReservation :: ReservationData
  SignaturesProvision :: "SigningSignature list"
  SignaturesDelete :: "SigningSignature list"
  Results :: "Result list"

subsection \<open>Helpers of the reservation type\<close>

text \<open>
  Modelled from the spec: \<open>Reservation.Expired\<close> is not in the sources. The spec's
  pipeline step 2 fires when \<open>now \<ge> expiration_reservation\<close>.
\<close>

definition Expired :: "Reservation \<Rightarrow> int \<Rightarrow> bool" where
  "Expired r now = (ExpirationReservation (DataReservation r) \<le> now)"

text \<open>
  Modelled from the spec: \<open>Reservation.Workloads\<close> is not in the sources. With an
  empty node id it lists every workload of the reservation (as the callers' comments
  say), otherwise the workloads addressed to that node.
\<close>

definition Workloads :: "Reservation \<Rightarrow> string \<Rightarrow> Workload list" where
  "Workloads r nodeID =
     filter (\<lambda>w. nodeID = [] \<or> NodeID w = nodeID) (DataWorkloads (DataReservation r))"

text \<open>
  Modelled from the spec: \<open>Reservation.IsSuccessfullyDeployed\<close> is not in the
  sources. Successfully deployed: for every workload in the reservation there exists
  a result with \<open>state = OK\<close> and matching \<open>workload_id\<close>.
\<close>

definition IsSuccessfullyDeployed :: "Reservation \<Rightarrow> bool" where
  "IsSuccessfullyDeployed r =
     list_all
       (\<lambda>w. list_ex (\<lambda>res. ResultState res = ResultStateOK \<and> ResultWorkloadId res = WorkloadId w)
                (Results r))
       (Workloads r [])"

section \<open>The reservation pipeline\<close>

text \<open>The closure \<open>in\<close> of both signature checks: a linear search.\<close>

fun in_list :: "int \<Rightarrow> int list \<Rightarrow> bool" where
  "in_list i [] = False"
| "in_list i (x # l) = (if x = i then True else in_list i l)"

text \<open>
  The counting loop of both signature checks; the third argument is the running
  \<open>count\<close>.
\<close>

fun count_signatures :: "SigningSignature list \<Rightarrow> int list \<Rightarrow> int \<Rightarrow> int" where
  "count_signatures [] signers count = count"
| "count_signatures (signature # signatures) signers count =
     (if \<not> in_list (Tid signature) signers
      then count_signatures signatures signers count
      else count_signatures signatures signers (count + 1))"

definition checkProvisionSignatures :: "Reservation \<Rightarrow> bool" where
  "checkProvisionSignatures r =
     (let request = SigningRequestProvision (DataReservation r) in
      if QuorumMin request = 0 then True
      else QuorumMin request \<le> count_signatures (SignaturesProvision r) (Signers request) 0)"

definition checkDeleteSignatures :: "Reservation \<Rightarrow> bool" where
  "checkDeleteSignatures r =
     (let request = SigningRequestDelete (DataReservation r) in
      if QuorumMin request = 0 then False
      else QuorumMin request \<le> count_signatures (SignaturesDelete r) (Signers request) 0)"

text \<open>One execution of the \<open>switch\<close> inside the loop of \<open>Next\<close>.\<close>

definition stage :: "Reservation \<Rightarrow> Reservation" where
  "stage r =
     (case NextAction r of
        NextActionCreate \<Rightarrow> r\<lparr>NextAction := NextActionSign\<rparr>
      | NextActionSign \<Rightarrow>
          (if checkProvisionSignatures r then r\<lparr>NextAction := NextActionPay\<rparr> else r)
      | NextActionPay \<Rightarrow> r
      | NextActionDeploy \<Rightarrow> r
      | _ \<Rightarrow> r)"

text \<open>
  How far a reservation is from the stages where the switch changes nothing; the
  measure under which the loop of \<open>Next\<close> terminates.
\<close>

fun stage_rank :: "NextActionEnum \<Rightarrow> nat" where
  "stage_rank NextActionCreate = 2"
| "stage_rank NextActionSign = 1"
| "stage_rank _ = 0"

text \<open>
  The \<open>for\<close> loop of \<open>Next\<close>: run the switch, stop when the stage equals
  \<open>current\<close>, otherwise remember the new stage and mark the reservation modified.
\<close>

function next_loop :: "Reservation \<Rightarrow> NextActionEnum \<Rightarrow> bool \<Rightarrow> Reservation \<times> bool" where
  "next_loop r current modified =
     (let r' = stage r in
      if current = NextAction r' then (r', modified)
      else next_loop r' (NextAction r') True)"
  by pat_completeness auto
termination
  by (relation "measure (\<lambda>(r, current, modified).
        2 * stage_rank (NextAction r) + (if current = NextAction r then 0 else 1))")
     (auto simp: stage_def split: NextActionEnum.splits if_splits)

declare next_loop.simps [simp del]

text \<open>
  \<open>Pipeline.Next\<close>. The wall clock the source reads (inside \<open>Expired\<close> and in
  the provisioning check) is the argument \<open>now\<close>: one pass sees one instant.
\<close>

definition Next :: "Reservation \<Rightarrow> int \<Rightarrow> Reservation \<times> bool" where
  "Next r now =
     (if NextAction r = NextActionDelete \<or> NextAction r = NextActionDeleted then (r, False)
      else if Expired r now \<or> checkDeleteSignatures r
        then (r\<lparr>NextAction := NextActionDelete\<rparr>, True)
      else if ExpirationProvisioning (DataReservation r) < now \<and> \<not> IsSuccessfullyDeployed r
        then (r\<lparr>NextAction := NextActionDelete\<rparr>, True)
      else next_loop r (NextAction r) False)"

text \<open>\<open>API.pipeline\<close> on a reservation that was read without error.\<close>

definition pipeline :: "Reservation \<Rightarrow> int \<Rightarrow> Reservation" where
  "pipeline r now = fst (Next r now)"

section \<open>The quorum rule in the spec's words\<close>

text \<open>
  The spec's quorum: at least \<open>quorum_min\<close> distinct signatures in the list bear
  a \<open>tid\<close> belonging to the declared signers; signatures with an unknown
  \<open>tid\<close> do not count. Distinct means distinct signers (the spec's glossary), so
  the signatures are counted by the distinct signer ids among them.
\<close>

definition quorum_satisfied :: "SigningRequest \<Rightarrow> SigningSignature list \<Rightarrow> bool" where
  "quorum_satisfied request signatures =
     (QuorumMin request
        \<le> int (length (remdups (filter (\<lambda>t. t \<in> set (Signers request)) (map Tid signatures)))))"

section \<open>Currency admission\<close>

text \<open>The currency code \<open>freeTFT\<close>.\<close>

definition freeTFT :: string where
  "freeTFT = ''FreeTFT''"

text \<open>
  A Go slice of strings that starts at the first cell of its backing array: the array
  (whose length is the capacity) and the length of the slice. Slicing beyond the
  length panics.
\<close>

datatype go_panic = SliceBoundsOutOfRange nat nat

type_synonym string_slice = "string list \<times> nat"

text \<open>
  \<open>append(currencies[:i], currencies[i+1:]...)\<close> on the slice \<open>(arr, n)\<close>.
  \<open>currencies[:i]\<close> is within the capacity for every index of the loop;
  \<open>currencies[i+1:]\<close> panics when \<open>i + 1\<close> exceeds the length. Otherwise the
  cells after \<open>i\<close> move one place down inside the backing array, the cells from
  \<open>n - 1\<close> on keep their contents, and the slice is one shorter.
\<close>

definition remove_at :: "nat \<Rightarrow> string_slice \<Rightarrow> go_panic + string_slice" where
  "remove_at i s =
     (case s of (arr, n) \<Rightarrow>
        if n < i + 1 then Inl (SliceBoundsOutOfRange (i + 1) n)
        else Inr (take i arr @ drop (i + 1) (take n arr) @ drop (n - 1) arr, n - 1))"

text \<open>
  The loop \<open>for i, c := range currencies\<close>. The range expression is evaluated once,
  so the loop visits every index of the original slice and reads \<open>c\<close> from the
  backing array, which the body rewrites while it reassigns \<open>currencies\<close>.
\<close>

fun filter_loop :: "nat list \<Rightarrow> string list \<Rightarrow> nat \<Rightarrow> go_panic + string_slice" where
  "filter_loop [] arr n = Inr (arr, n)"
| "filter_loop (i # is) arr n =
     (if arr ! i = freeTFT
      then (case remove_at i (arr, n) of
              Inl e \<Rightarrow> Inl e
            | Inr (arr', n') \<Rightarrow> filter_loop is arr' n')
      else filter_loop is arr n)"

text \<open>
  The currency admission of \<open>API.create\<close>: \<open>freeNodes\<close> is the number of
  free-to-use nodes and gateways the directory counts among the referenced ones,
  \<open>paidNodes\<close> the number of referenced nodes and gateways, \<open>declared\<close> the
  reservation's currencies (copied into a fresh slice). The result is the list handed
  to the escrow, or the panic that ends the request.
\<close>

definition admitted_currencies :: "int \<Rightarrow> int \<Rightarrow> string list \<Rightarrow> go_panic + string list" where
  "admitted_currencies freeNodes paidNodes declared =
     (if freeNodes < paidNodes
      then (case filter_loop [0..<length declared] declared (length declared) of
              Inl e \<Rightarrow> Inl e
            | Inr (arr, n) \<Rightarrow> Inr (take n arr))
      else Inr declared)"

text \<open>
  The removal in the spec's words: a single left-to-right pass that drops a
  \<open>FreeTFT\<close> and then moves past the entry that took its place, so that a second
  consecutive \<open>FreeTFT\<close> is left in the list.
\<close>

fun single_pass_removal :: "string list \<Rightarrow> string list" where
  "single_pass_removal [] = []"
| "single_pass_removal [c] = (if c = freeTFT then [] else [c])"
| "single_pass_removal (c # d # cs) =
     (if c = freeTFT then d # single_pass_removal cs else c # single_pass_removal (d # cs))"

section \<open>Request parameters\<close>

text \<open>
  \<open>strconv.ParseInt(s, 10, 64)\<close>: an optional sign, at least one decimal digit, and
  a value within the range of \<open>int64\<close>; \<open>None\<close> is the error.
\<close>

definition digit_of :: "char \<Rightarrow> int option" where
  "digit_of c =
     (let n = (of_char c :: int) in if 48 \<le> n \<and> n \<le> 57 then Some (n - 48) else None)"

fun parse_digits :: "string \<Rightarrow> int \<Rightarrow> int option" where
  "parse_digits [] acc = Some acc"
| "parse_digits (c # cs) acc =
     (case digit_of c of None \<Rightarrow> None | Some d \<Rightarrow> parse_digits cs (10 * acc + d))"

definition ParseInt :: "string \<Rightarrow> int option" where
  "ParseInt s =
     (case s of
        [] \<Rightarrow> None
      | c # cs \<Rightarrow>
          (let neg = (c = CHR ''-'');
               ds = (if c = CHR ''+'' \<or> c = CHR ''-'' then cs else s)
           in if ds = [] then None
              else (case parse_digits ds 0 of
                      None \<Rightarrow> None
                    | Some n \<Rightarrow>
                        if neg then (if n \<le> 2 ^ 63 then Some (- n) else None)
                        else (if n < 2 ^ 63 then Some n else None))))"

definition parseID :: "string \<Rightarrow> int option" where
  "parseID s = ParseInt s"

text \<open>\<open>strings.Split(s, sep)[0]\<close> for a one-character separator.\<close>

definition Split_first :: "string \<Rightarrow> char \<Rightarrow> string" where
  "Split_first s sep = takeWhile (\<lambda>c. c \<noteq> sep) s"

section \<open>The store and the node poll\<close>

text \<open>
  Modelled from the spec: the store operations (\<open>QueueFilter\<close>,
  \<open>ReservationFilter\<close>, \<open>ReservationLastID\<close>, \<open>ReservationSetNextAction\<close>) are
  not in the sources. The store is the queue collection in insertion order, the
  reservation collection in id order, and the ids the escrow was told to cancel; its
  operations do not fail.
\<close>

record Database =
  queue :: "Workload list"
  reservations :: "Reservation list"
  canceled :: "int list"

definition maxPageSize :: nat where
  "maxPageSize = 200"

text \<open>
  \<open>API.queued\<close>: the queue rows of the node, at most \<open>limit\<close> of them (a limit of
  zero is no limit to the store's \<open>Find\<close>).
\<close>

definition queued :: "Database \<Rightarrow> string \<Rightarrow> nat \<Rightarrow> Workload list" where
  "queued db nodeID limit =
     (let rows = filter (\<lambda>w. NodeID w = nodeID) (queue db)
      in if limit = 0 then rows else take limit rows)"

text \<open>Modelled from the spec: the current maximum reservation id.\<close>

definition ReservationLastID :: "Database \<Rightarrow> int" where
  "ReservationLastID db = fold max (map ID (reservations db)) 0"

text \<open>Modelled from the spec: \<open>Reservation.IsAny\<close>, the stage is one of those listed.\<close>

definition IsAny :: "Reservation \<Rightarrow> NextActionEnum list \<Rightarrow> bool" where
  "IsAny r actions = (NextAction r \<in> set actions)"

text \<open>Modelled from the spec: the reservations that touch a node.\<close>

definition touches_node :: "Reservation \<Rightarrow> string \<Rightarrow> bool" where
  "touches_node r nodeID = list_ex (\<lambda>w. NodeID w = nodeID) (DataWorkloads (DataReservation r))"

text \<open>Modelled from the spec: \<open>SetNextAction\<close>, an unconditional overwrite.\<close>

definition ReservationSetNextAction :: "Database \<Rightarrow> int \<Rightarrow> NextActionEnum \<Rightarrow> Database" where
  "ReservationSetNextAction db rid action =
     db\<lparr>reservations :=
          map (\<lambda>r. if ID r = rid then r\<lparr>NextAction := action\<rparr> else r) (reservations db)\<rparr>"

definition setReservationDeleted :: "Database \<Rightarrow> int \<Rightarrow> Database" where
  "setReservationDeleted db rid =
     ReservationSetNextAction (db\<lparr>canceled := canceled db @ [rid]\<rparr>) rid NextActionDelete"

text \<open>
  What a handler answers besides its payload: nothing (the plain reply), the reply
  with the \<open>x-last-id\<close> header, or an error status.
\<close>

datatype Response = Ok_last_id int | BadRequest | NotFound

text \<open>The cursor loop of \<open>API.workloads\<close> over the reservations found.\<close>

fun scan_reservations ::
  "Reservation list \<Rightarrow> string \<Rightarrow> int \<Rightarrow> Database \<Rightarrow> Workload list \<Rightarrow> Database \<times> Workload list" where
  "scan_reservations [] nodeID now db workloads = (db, workloads)"
| "scan_reservations (r # cur) nodeID now db workloads =
     (let reservation = pipeline r now;
          db' = (if NextAction reservation = NextActionDelete
                 then setReservationDeleted db (ID reservation) else db)
      in if \<not> IsAny reservation [NextActionDeploy, NextActionDelete]
         then scan_reservations cur nodeID now db' workloads
         else (let workloads' = workloads @ Workloads reservation nodeID
               in if maxPageSize \<le> length workloads' then (db', workloads')
                  else scan_reservations cur nodeID now db' workloads'))"

text \<open>
  \<open>API.workloads\<close>, the node poll: the store after the request, the list returned
  (if any) and the response (\<open>None\<close> where the source returns \<open>nil\<close>).
\<close>

definition workloads ::
  "Database \<Rightarrow> string \<Rightarrow> string \<Rightarrow> int \<Rightarrow> Database \<times> Workload list option \<times> Response option" where
  "workloads db nodeID from_value now =
     (let queue_rows = queued db nodeID maxPageSize
      in if maxPageSize < length queue_rows then (db, Some queue_rows, None)
         else (case parseID from_value of
                 None \<Rightarrow> (db, None, Some BadRequest)
               | Some from \<Rightarrow>
                   (let lastID = ReservationLastID db;
                        cur = filter (\<lambda>r. from \<le> ID r \<and> touches_node r nodeID) (reservations db);
                        (db', found) = scan_reservations cur nodeID now db queue_rows
                    in (db', Some found, Some (Ok_last_id lastID)))))"

section \<open>Reading one workload\<close>

text \<open>
  The loop of \<open>API.workloadGet\<close> over the reservation's results: the first result
  of the workload is appended and the loop is left.
\<close>

fun collect_result :: "Result list \<Rightarrow> string \<Rightarrow> Result list \<Rightarrow> Result list" where
  "collect_result [] wid result = result"
| "collect_result (rs # rest) wid result =
     (if ResultWorkloadId rs = wid then result @ [rs] else collect_result rest wid result)"

definition workloadGet :: "Database \<Rightarrow> string \<Rightarrow> int \<Rightarrow> Response + Workload \<times> Result list" where
  "workloadGet db gwid now =
     (case parseID (Split_first gwid CHR ''-'') of
        None \<Rightarrow> Inl BadRequest
      | Some rid \<Rightarrow>
          (case find (\<lambda>r. ID r = rid) (reservations db) of
             None \<Rightarrow> Inl NotFound
           | Some r \<Rightarrow>
               (let reservation = pipeline r now
                in case find (\<lambda>wl. WorkloadId wl = gwid) (Workloads reservation []) of
                     None \<Rightarrow> Inl NotFound
                   | Some workload \<Rightarrow>
                       Inr (workload,
                            collect_result (Results reservation) (WorkloadId workload) []))))"

section \<open>Phonebook users\<close>

record User =
  UserID :: int
  Name :: string
  Email :: string
  Pubkey :: string
  Host :: string
  Description :: string






datatype InsertError = WriteException "int list" | InsertFailure string










section \<open>Hardware proofs\<close>

text \<open>A value of Go's \<open>interface{}\<close> as far as a proof map holds one.\<close>

datatype Any = AnyString string | AnyInt int | AnyList "Any list" | AnyMap "(string \<times> Any) list"

text \<open>
  The local struct \<open>kv\<close> of \<open>hashProof\<close>; its zero value has the empty key and
  the nil value. Both fields are unexported.
\<close>

record kv =
  k :: string
  v :: "Any option"

text \<open>
  \<open>json.Marshal\<close> writes a struct as the object of its exported fields, those
  whose name starts with an upper-case letter (ASCII names here), each as its quoted
  name, a colon and the encoding of its value; \<open>enc\<close> stands for the encoding of
  the values. A slice is written as its elements between brackets, separated by
  commas.
\<close>

definition exported :: "string \<Rightarrow> bool" where
  "exported name =
     (case name of
        [] \<Rightarrow> False
      | c # _ \<Rightarrow> (let n = (of_char c :: nat) in 65 \<le> n \<and> n \<le> 90))"

fun join :: "string list \<Rightarrow> string \<Rightarrow> string" where
  "join [] sep = []"
| "join [x] sep = x"
| "join (x # y # ys) sep = x @ sep @ join (y # ys) sep"

definition json_Marshal_struct :: "(Any option \<Rightarrow> string) \<Rightarrow> (string \<times> Any option) list \<Rightarrow> string" where
  "json_Marshal_struct enc members =
     ''{'' @ join (map (\<lambda>(name, val). [CHR 0x22] @ name @ [CHR 0x22] @ '':'' @ enc val)
                   (filter (\<lambda>(name, val). exported name) members)) '','' @ ''}''"

text \<open>The fields of \<open>kv\<close>, by name.\<close>

definition kv_fields :: "kv \<Rightarrow> (string \<times> Any option) list" where
  "kv_fields e = [(''k'', Some (AnyString (k e))), (''v'', v e)]"

definition json_Marshal_kv :: "(Any option \<Rightarrow> string) \<Rightarrow> kv \<Rightarrow> string" where
  "json_Marshal_kv enc e = json_Marshal_struct enc (kv_fields e)"

definition json_Marshal_kvs :: "(Any option \<Rightarrow> string) \<Rightarrow> kv list \<Rightarrow> string" where
  "json_Marshal_kvs enc kvs = ''['' @ join (map (json_Marshal_kv enc) kvs) '','' @ '']''"

text \<open>
  \<open>md5.New().Sum(b)\<close> appends the digest of what was written to the hash, which is
  nothing, to \<open>b\<close>: the MD5 digest of the empty input is a constant.
\<close>

definition md5_empty :: string where
  "md5_empty = map char_of
     [0xd4, 0x1d, 0x8c, 0xd9, 0x8f, 0x00, 0xb2, 0x04,
      0xe9, 0x80, 0x09, 0x98, 0xec, 0xf8, 0x42, 0x7e :: nat]"

definition md5_New_Sum :: "string \<Rightarrow> string" where
  "md5_New_Sum b = b @ md5_empty"

definition hex_digit :: "nat \<Rightarrow> char" where
  "hex_digit n = ''0123456789abcdef'' ! n"

definition hex_byte :: "char \<Rightarrow> string" where
  "hex_byte c = [hex_digit (of_char c div 16), hex_digit (of_char c mod 16)]"

text \<open>\<open>fmt.Sprintf("%x", bytes)\<close>.\<close>

definition Sprintf_x :: "string \<Rightarrow> string" where
  "Sprintf_x bytes = concat (map hex_byte bytes)"

text \<open>
  \<open>hashProof\<close>. The map is the list of its entries in the order the \<open>range\<close>
  loop visits them (one entry per key); \<open>enc\<close> is the JSON encoding of values. \<open>make([]kv, len(p))\<close> already holds
  \<open>len(p)\<close> zero entries when the loop appends the entries of the map.
\<close>

definition hashProof :: "(Any option \<Rightarrow> string) \<Rightarrow> (string \<times> Any) list \<Rightarrow> string" where
  "hashProof enc p =
     (let kvs0 = replicate (length p) \<lparr>k = [], v = None\<rparr>;
          kvs1 = kvs0 @ map (\<lambda>(key, val). \<lparr>k = key, v = Some val\<rparr>) p;
          kvs = sort_key k kvs1;
          b = json_Marshal_kvs enc kvs;
          bh = md5_New_Sum b
      in Sprintf_x bh)"

record DMI =
  Sections :: Any
  Tooling :: Any

record Disks =
  Aggregator :: Any
  Environment :: Any
  Devices :: Any
  Tool :: Any

record Proof =
  Created :: int
  Hardware :: "(string \<times> Any) list"
  HardwareHash :: string
  ProofDisks :: "(string \<times> Any) list"
  DiskHash :: string
  Hypervisor :: "string list"

text \<open>The proof that \<open>NodeAPI.StoreProof\<close> builds and pushes to the node's document.\<close>

definition StoreProof ::
  "(Any option \<Rightarrow> string) \<Rightarrow> int \<Rightarrow> DMI \<Rightarrow> Disks \<Rightarrow> string list \<Rightarrow> Proof" where
  "StoreProof enc now dmi disks hypervisor =
     (let hardware = [(''sections'', Sections dmi), (''tooling'', Tooling dmi)];
          disk_map = [(''aggregator'', Aggregator disks), (''environment'', Environment disks),
                      (''devices'', Devices disks), (''tool'', Tool disks)]
      in \<lparr>Created = now, Hardware = hardware, HardwareHash = hashProof enc hardware,
          ProofDisks = disk_map, DiskHash = hashProof enc disk_map, Hypervisor = hypervisor\<rparr>)"

section \<open>Examples\<close>

definition sig42 :: SigningSignature where
  "sig42 = \<lparr>Tid = 42, Signature = ''ab'', Epoch = 5\<rparr>"

definition request42 :: SigningRequest where
  "request42 = \<lparr>Signers = [42], QuorumMin = 1\<rparr>"

definition request_none :: SigningRequest where
  "request_none = \<lparr>Signers = [], QuorumMin = 0\<rparr>"

definition workload_n1 :: Workload where
  "workload_n1 = \<lparr>WorkloadId = ''7-1'', NodeID = ''N1'', User = ''42'', Content = ''c'',
     ToDelete = False\<rparr>"

definition data_example :: ReservationData where
  "data_example = \<lparr>ExpirationProvisioning = 1800, ExpirationReservation = 7200,
     Currencies = [''TFT''], SigningRequestProvision = request42,
     SigningRequestDelete = request_none, DataWorkloads = [workload_n1]\<rparr>"

definition reservation_example :: "NextActionEnum \<Rightarrow> Reservation" where
  "reservation_example a = \<lparr>ID = 7, CustomerTid = 42, NextAction = a,
     DataReservation = data_example, SignaturesProvision = [sig42], SignaturesDelete = [],
     Results = []\<rparr>"

definition request42_twice :: SigningRequest where
  "request42_twice = \<lparr>Signers = [42], QuorumMin = 2\<rparr>"

definition reservation_signed_twice :: Reservation where
  "reservation_signed_twice = \<lparr>ID = 8, CustomerTid = 42, NextAction = NextActionSign,
     DataReservation = data_example\<lparr>SigningRequestProvision := request42_twice\<rparr>,
     SignaturesProvision = [sig42, sig42], SignaturesDelete = [], Results = []\<rparr>"

definition reservation_no_quorum :: Reservation where
  "reservation_no_quorum = \<lparr>ID = 9, CustomerTid = 42, NextAction = NextActionCreate,
     DataReservation = data_example\<lparr>SigningRequestProvision := request_none\<rparr>,
     SignaturesProvision = [], SignaturesDelete = [sig42], Results = []\<rparr>"

definition queue_row :: Workload where
  "queue_row = \<lparr>WorkloadId = ''3-1'', NodeID = ''N1'', User = ''42'', Content = ''c'',
     ToDelete = False\<rparr>"

definition db_full_queue :: Database where
  "db_full_queue = \<lparr>queue = replicate 200 queue_row,
     reservations = [reservation_example NextActionDeploy], canceled = []\<rparr>"

definition result_ok :: Result where
  "result_ok = \<lparr>ResultWorkloadId = ''7-1'', ResultNodeId = ''N1'', ResultEpoch = 10,
     ResultState = ResultStateOK, ResultDataJson = ''{}'', ResultSignature = ''s1''\<rparr>"

definition result_deleted :: Result where
  "result_deleted = \<lparr>ResultWorkloadId = ''7-1'', ResultNodeId = ''N1'', ResultEpoch = 20,
     ResultState = ResultStateDeleted, ResultDataJson = ''{}'', ResultSignature = ''s2''\<rparr>"

definition db_two_results :: Database where
  "db_two_results = \<lparr>queue = [],
     reservations = [(reservation_example NextActionDeploy)\<lparr>Results := [result_ok, result_deleted]\<rparr>],
     canceled = []\<rparr>"

definition db_one_result :: Database where
  "db_one_result = \<lparr>queue = [],
     reservations = [(reservation_example NextActionDeploy)\<lparr>Results := [result_ok]\<rparr>],
     canceled = []\<rparr>"





lemmas example_defs =
  sig42_def request42_def request_none_def workload_n1_def data_example_def
  reservation_example_def request42_twice_def reservation_signed_twice_def
  reservation_no_quorum_def

section \<open>Properties of the pipeline\<close>

lemma checkProvisionSignatures_NextAction [simp]:
  "checkProvisionSignatures (r\<lparr>NextAction := a\<rparr>) = checkProvisionSignatures r"
  by (simp add: checkProvisionSignatures_def)

lemma checkDeleteSignatures_NextAction [simp]:
  "checkDeleteSignatures (r\<lparr>NextAction := a\<rparr>) = checkDeleteSignatures r"
  by (simp add: checkDeleteSignatures_def)

lemma Expired_NextAction [simp]: "Expired (r\<lparr>NextAction := a\<rparr>) now = Expired r now"
  by (simp add: Expired_def)

lemma IsSuccessfullyDeployed_NextAction [simp]:
  "IsSuccessfullyDeployed (r\<lparr>NextAction := a\<rparr>) = IsSuccessfullyDeployed r"
  by (simp add: IsSuccessfullyDeployed_def Workloads_def)

text \<open>What the loop returns when it is entered as \<open>Next\<close> enters it.\<close>

lemma next_loop_result:
  "NextAction r = current \<Longrightarrow>
   next_loop r current False =
     (case current of
        NextActionCreate \<Rightarrow>
          (if checkProvisionSignatures r then (r\<lparr>NextAction := NextActionPay\<rparr>, True)
           else (r\<lparr>NextAction := NextActionSign\<rparr>, True))
      | NextActionSign \<Rightarrow>
          (if checkProvisionSignatures r then (r\<lparr>NextAction := NextActionPay\<rparr>, True)
           else (r, False))
      | _ \<Rightarrow> (r, False))"
proof (cases current)
  case NextActionCreate
  assume "NextAction r = current"
  with NextActionCreate show ?thesis
    by (simp add: next_loop.simps [of r] next_loop.simps [of "r\<lparr>NextAction := NextActionSign\<rparr>"]
        next_loop.simps [of "r\<lparr>NextAction := NextActionPay\<rparr>"] stage_def)
next
  case NextActionSign
  assume "NextAction r = current"
  with NextActionSign show ?thesis
    by (simp add: next_loop.simps [of r] next_loop.simps [of "r\<lparr>NextAction := NextActionPay\<rparr>"]
        stage_def)
qed (simp_all add: next_loop.simps [of r] stage_def)

text \<open>The decision of \<open>Next\<close> that sends a live reservation to \<open>Delete\<close>.\<close>

definition delete_due :: "Reservation \<Rightarrow> int \<Rightarrow> bool" where
  "delete_due r now =
     ((Expired r now \<or> checkDeleteSignatures r)
      \<or> (ExpirationProvisioning (DataReservation r) < now \<and> \<not> IsSuccessfullyDeployed r))"

lemma delete_due_NextAction [simp]: "delete_due (r\<lparr>NextAction := a\<rparr>) now = delete_due r now"
  by (simp add: delete_due_def)

lemma Next_terminal:
  "NextAction r = NextActionDelete \<or> NextAction r = NextActionDeleted \<Longrightarrow> Next r now = (r, False)"
  by (simp add: Next_def)

lemma Next_delete_due:
  "NextAction r \<noteq> NextActionDelete \<Longrightarrow> NextAction r \<noteq> NextActionDeleted \<Longrightarrow> delete_due r now \<Longrightarrow>
   Next r now = (r\<lparr>NextAction := NextActionDelete\<rparr>, True)"
  by (auto simp: Next_def delete_due_def)

lemma Next_live:
  "NextAction r \<noteq> NextActionDelete \<Longrightarrow> NextAction r \<noteq> NextActionDeleted \<Longrightarrow> \<not> delete_due r now \<Longrightarrow>
   Next r now = next_loop r (NextAction r) False"
  by (auto simp: Next_def delete_due_def)

text \<open>
  C2. A reservation whose next action is \<open>Delete\<close> or \<open>Deleted\<close> passes through
  the pipeline unchanged, and the pipeline reports that nothing changed, at every
  clock value and whatever its signature lists and results hold.
\<close>

theorem Next_terminal_unchanged:
  "NextAction r = NextActionDelete \<or> NextAction r = NextActionDeleted \<Longrightarrow> Next r now = (r, False)"
  by (simp add: Next_def)

theorem Next_terminal_unchanged_witness:
  "NextAction (reservation_example NextActionDeleted) = NextActionDeleted
   \<and> Next (reservation_example NextActionDeleted) 9000 = (reservation_example NextActionDeleted, False)"
  using Next_terminal_unchanged [of "reservation_example NextActionDeleted" 9000]
  by (simp add: reservation_example_def)

subsection \<open>Counting signatures\<close>

lemma in_list_set: "in_list i l = (i \<in> set l)"
  by (induction l) auto

lemma count_signatures_filter:
  "count_signatures signatures signers count =
     count + int (length (filter (\<lambda>s. Tid s \<in> set signers) signatures))"
  by (induction signatures arbitrary: count) (auto simp: in_list_set)

lemma checkProvisionSignatures_count:
  "checkProvisionSignatures r =
     (QuorumMin (SigningRequestProvision (DataReservation r))
        \<le> int (length (filter (\<lambda>s. Tid s \<in> set (Signers (SigningRequestProvision (DataReservation r))))
                    (SignaturesProvision r))))"
  by (simp add: checkProvisionSignatures_def count_signatures_filter Let_def)

lemma distinct_signers_count:
  assumes d: "distinct (map Tid signatures)"
  shows "length (remdups (filter (\<lambda>t. t \<in> S) (map Tid signatures)))
       = length (filter (\<lambda>s. Tid s \<in> S) signatures)"
proof -
  have "distinct (filter (\<lambda>t. t \<in> S) (map Tid signatures))"
    using d by (rule distinct_filter)
  then have e: "remdups (filter (\<lambda>t. t \<in> S) (map Tid signatures))
      = filter (\<lambda>t. t \<in> S) (map Tid signatures)"
    by (rule distinct_remdups_id)
  show ?thesis unfolding e by (simp add: filter_map comp_def)
qed

lemma checkDeleteSignatures_zero:
  "QuorumMin (SigningRequestDelete (DataReservation r)) = 0 \<Longrightarrow> \<not> checkDeleteSignatures r"
  by (simp add: checkDeleteSignatures_def)

subsection \<open>From Sign to Pay\<close>

text \<open>
  C1, as stated, fails on the code. An expired reservation in stage \<open>Sign\<close> whose
  provision quorum is satisfied goes to \<open>Delete\<close>, not to \<open>Pay\<close>: the expiry
  test of \<open>Next\<close> comes before the stage switch. And the code counts list entries,
  not distinct signers: the same signature listed twice reaches a quorum of two.
\<close>

theorem Sign_to_Pay_counterexample:
  "\<not> ((NextAction (fst (Next (reservation_example NextActionSign) 8000)) = NextActionPay)
        = quorum_satisfied (SigningRequestProvision (DataReservation (reservation_example NextActionSign)))
            (SignaturesProvision (reservation_example NextActionSign)))
   \<and> \<not> ((NextAction (fst (Next reservation_signed_twice 100)) = NextActionPay)
        = quorum_satisfied (SigningRequestProvision (DataReservation reservation_signed_twice))
            (SignaturesProvision reservation_signed_twice))"
  by (simp add: Next_def next_loop_result Expired_def checkDeleteSignatures_def
      checkProvisionSignatures_def IsSuccessfullyDeployed_def Workloads_def
      quorum_satisfied_def example_defs)

text \<open>
  C1, amended. For a reservation in stage \<open>Sign\<close> that none of the tests ahead of
  the stage switch sends to \<open>Delete\<close> (it is not expired, its delete quorum is not
  reached, and its provisioning deadline has not passed without a successful
  deployment), one pass sets \<open>Pay\<close> exactly when the entries of
  \<open>signatures_provision\<close> whose \<open>tid\<close> is among the signers number at least
  \<open>quorum_min\<close>; entries with another \<open>tid\<close> are not counted. When the
  entries carry pairwise distinct \<open>tid\<close>s this is the spec's quorum rule.
\<close>

theorem Sign_to_Pay_iff_quorum:
  assumes "NextAction r = NextActionSign"
    and "\<not> Expired r now" and "\<not> checkDeleteSignatures r"
    and "\<not> (ExpirationProvisioning (DataReservation r) < now \<and> \<not> IsSuccessfullyDeployed r)"
  shows "((NextAction (fst (Next r now)) = NextActionPay)
          = (QuorumMin (SigningRequestProvision (DataReservation r))
              \<le> int (length (filter (\<lambda>s. Tid s \<in> set (Signers (SigningRequestProvision (DataReservation r))))
                    (SignaturesProvision r)))))
       \<and> (distinct (map Tid (SignaturesProvision r)) \<longrightarrow>
           (NextAction (fst (Next r now)) = NextActionPay)
           = quorum_satisfied (SigningRequestProvision (DataReservation r)) (SignaturesProvision r))"
proof -
  have "\<not> delete_due r now" using assms by (simp add: delete_due_def)
  then have n: "Next r now =
      (if checkProvisionSignatures r then (r\<lparr>NextAction := NextActionPay\<rparr>, True) else (r, False))"
    using assms(1) by (simp add: Next_live next_loop_result)
  have a: "(NextAction (fst (Next r now)) = NextActionPay) = checkProvisionSignatures r"
    using assms(1) by (simp add: n)
  show ?thesis
    unfolding a quorum_satisfied_def
    by (simp add: checkProvisionSignatures_count distinct_signers_count)
qed

theorem Sign_to_Pay_iff_quorum_witness:
  "NextAction (reservation_example NextActionSign) = NextActionSign
   \<and> \<not> Expired (reservation_example NextActionSign) 100
   \<and> \<not> checkDeleteSignatures (reservation_example NextActionSign)
   \<and> \<not> (ExpirationProvisioning (DataReservation (reservation_example NextActionSign)) < 100
          \<and> \<not> IsSuccessfullyDeployed (reservation_example NextActionSign))
   \<and> distinct (map Tid (SignaturesProvision (reservation_example NextActionSign)))
   \<and> quorum_satisfied (SigningRequestProvision (DataReservation (reservation_example NextActionSign)))
         (SignaturesProvision (reservation_example NextActionSign))
   \<and> NextAction (fst (Next (reservation_example NextActionSign) 100)) = NextActionPay"
proof -
  have h: "NextAction (reservation_example NextActionSign) = NextActionSign"
    "\<not> Expired (reservation_example NextActionSign) 100"
    "\<not> checkDeleteSignatures (reservation_example NextActionSign)"
    "\<not> (ExpirationProvisioning (DataReservation (reservation_example NextActionSign)) < 100
          \<and> \<not> IsSuccessfullyDeployed (reservation_example NextActionSign))"
    by (simp_all add: Expired_def checkDeleteSignatures_def example_defs)
  have d: "distinct (map Tid (SignaturesProvision (reservation_example NextActionSign)))"
    by (simp add: example_defs)
  have q: "quorum_satisfied (SigningRequestProvision (DataReservation (reservation_example NextActionSign)))
         (SignaturesProvision (reservation_example NextActionSign))"
    by (simp add: quorum_satisfied_def example_defs)
  from Sign_to_Pay_iff_quorum [OF h] d q
  have "NextAction (fst (Next (reservation_example NextActionSign) 100)) = NextActionPay"
    by blast
  with h d q show ?thesis by blast
qed

subsection \<open>Expiry\<close>

text \<open>
  C5. For a reservation whose next action is neither \<open>Delete\<close> nor \<open>Deleted\<close>,
  once the clock is past \<open>expiration_reservation\<close> one pass of the pipeline sets
  the next action to \<open>Delete\<close> and reports a change.
\<close>

theorem expired_goes_Delete:
  "NextAction r \<noteq> NextActionDelete \<Longrightarrow> NextAction r \<noteq> NextActionDeleted \<Longrightarrow>
   ExpirationReservation (DataReservation r) < now \<Longrightarrow>
   Next r now = (r\<lparr>NextAction := NextActionDelete\<rparr>, True)"
  by (simp add: Next_def Expired_def)

theorem expired_goes_Delete_witness:
  "NextAction (reservation_example NextActionDeploy) \<noteq> NextActionDelete
   \<and> NextAction (reservation_example NextActionDeploy) \<noteq> NextActionDeleted
   \<and> ExpirationReservation (DataReservation (reservation_example NextActionDeploy)) < 7201
   \<and> Next (reservation_example NextActionDeploy) 7201
       = ((reservation_example NextActionDeploy)\<lparr>NextAction := NextActionDelete\<rparr>, True)"
  using expired_goes_Delete [of "reservation_example NextActionDeploy" 7201]
  by (simp add: example_defs)

subsection \<open>A quorum of zero\<close>

text \<open>
  With a delete quorum of zero the pipeline does not read the delete signatures: a
  pass over a reservation with any list of them ends as the pass over the reservation
  without delete signatures does.
\<close>

lemma Next_SignaturesDelete:
  assumes "QuorumMin (SigningRequestDelete (DataReservation r)) = 0"
  shows "Next (r\<lparr>SignaturesDelete := sigs\<rparr>) now
     = ((fst (Next (r\<lparr>SignaturesDelete := []\<rparr>) now))\<lparr>SignaturesDelete := sigs\<rparr>,
        snd (Next (r\<lparr>SignaturesDelete := []\<rparr>) now))"
proof -
  have c: "\<not> checkDeleteSignatures (r\<lparr>SignaturesDelete := s\<rparr>)" for s
    using assms by (simp add: checkDeleteSignatures_def)
  have p: "checkProvisionSignatures (r\<lparr>SignaturesDelete := s\<rparr>) = checkProvisionSignatures r" for s
    by (simp add: checkProvisionSignatures_def)
  have e: "Expired (r\<lparr>SignaturesDelete := s\<rparr>) now = Expired r now" for s
    by (simp add: Expired_def)
  have d: "IsSuccessfullyDeployed (r\<lparr>SignaturesDelete := s\<rparr>) = IsSuccessfullyDeployed r" for s
    by (simp add: IsSuccessfullyDeployed_def Workloads_def)
  show ?thesis
    by (cases "NextAction r") (simp_all add: Next_def next_loop_result c p e d)
qed

text \<open>
  C6. With \<open>signing_request_delete.quorum_min = 0\<close> the delete quorum is never
  satisfied, whatever the list of delete signatures and the signers are: the pass of
  the pipeline ends as it does without any delete signature, and over a reservation
  that is not expired and whose provisioning deadline has not passed undeployed it
  never yields \<open>Delete\<close> (unless the reservation was there already). With
  \<open>signing_request_provision.quorum_min = 0\<close> the provision quorum is satisfied,
  whatever the signatures are.
\<close>

theorem quorum_min_zero:
  "(QuorumMin (SigningRequestDelete (DataReservation r)) = 0 \<longrightarrow>
      \<not> checkDeleteSignatures (r\<lparr>SignaturesDelete := sigs\<rparr>)
      \<and> Next (r\<lparr>SignaturesDelete := sigs\<rparr>) now
          = ((fst (Next (r\<lparr>SignaturesDelete := []\<rparr>) now))\<lparr>SignaturesDelete := sigs\<rparr>,
             snd (Next (r\<lparr>SignaturesDelete := []\<rparr>) now))
      \<and> (NextAction r \<noteq> NextActionDelete \<and> \<not> Expired r now
           \<and> \<not> (ExpirationProvisioning (DataReservation r) < now \<and> \<not> IsSuccessfullyDeployed r)
         \<longrightarrow> NextAction (fst (Next (r\<lparr>SignaturesDelete := sigs\<rparr>) now)) \<noteq> NextActionDelete))
   \<and> (QuorumMin (SigningRequestProvision (DataReservation r)) = 0 \<longrightarrow>
      checkProvisionSignatures (r\<lparr>SignaturesProvision := sigs'\<rparr>))"
proof (intro conjI impI)
  assume z: "QuorumMin (SigningRequestDelete (DataReservation r)) = 0"
  show c: "\<not> checkDeleteSignatures (r\<lparr>SignaturesDelete := sigs\<rparr>)"
    using z by (simp add: checkDeleteSignatures_def)
  show "Next (r\<lparr>SignaturesDelete := sigs\<rparr>) now
          = ((fst (Next (r\<lparr>SignaturesDelete := []\<rparr>) now))\<lparr>SignaturesDelete := sigs\<rparr>,
             snd (Next (r\<lparr>SignaturesDelete := []\<rparr>) now))"
    using z by (rule Next_SignaturesDelete)
  assume live: "NextAction r \<noteq> NextActionDelete \<and> \<not> Expired r now
      \<and> \<not> (ExpirationProvisioning (DataReservation r) < now \<and> \<not> IsSuccessfullyDeployed r)"
  let ?r = "r\<lparr>SignaturesDelete := sigs\<rparr>"
  have nd: "\<not> delete_due ?r now"
    using live c by (simp add: delete_due_def Expired_def IsSuccessfullyDeployed_def Workloads_def)
  show "NextAction (fst (Next ?r now)) \<noteq> NextActionDelete"
  proof (cases "NextAction r = NextActionDeleted")
    case True
    then show ?thesis by (simp add: Next_terminal)
  next
    case False
    with live nd have "Next ?r now = next_loop ?r (NextAction ?r) False"
      by (simp add: Next_live)
    with live show ?thesis
      by (cases "NextAction r") (simp_all add: next_loop_result)
  qed
next
  assume "QuorumMin (SigningRequestProvision (DataReservation r)) = 0"
  then show "checkProvisionSignatures (r\<lparr>SignaturesProvision := sigs'\<rparr>)"
    by (simp add: checkProvisionSignatures_def)
qed

theorem quorum_min_zero_witness:
  "QuorumMin (SigningRequestDelete (DataReservation reservation_no_quorum)) = 0
   \<and> NextAction reservation_no_quorum \<noteq> NextActionDelete
   \<and> \<not> Expired reservation_no_quorum 100
   \<and> \<not> (ExpirationProvisioning (DataReservation reservation_no_quorum) < 100
          \<and> \<not> IsSuccessfullyDeployed reservation_no_quorum)
   \<and> QuorumMin (SigningRequestProvision (DataReservation reservation_no_quorum)) = 0
   \<and> \<not> checkDeleteSignatures (reservation_no_quorum\<lparr>SignaturesDelete := [sig42, sig42]\<rparr>)
   \<and> NextAction (fst (Next (reservation_no_quorum\<lparr>SignaturesDelete := [sig42, sig42]\<rparr>) 100))
       \<noteq> NextActionDelete
   \<and> checkProvisionSignatures (reservation_no_quorum\<lparr>SignaturesProvision := []\<rparr>)"
proof -
  have h: "QuorumMin (SigningRequestDelete (DataReservation reservation_no_quorum)) = 0"
    "NextAction reservation_no_quorum \<noteq> NextActionDelete"
    "\<not> Expired reservation_no_quorum 100"
    "\<not> (ExpirationProvisioning (DataReservation reservation_no_quorum) < 100
          \<and> \<not> IsSuccessfullyDeployed reservation_no_quorum)"
    "QuorumMin (SigningRequestProvision (DataReservation reservation_no_quorum)) = 0"
    by (simp_all add: Expired_def example_defs)
  with quorum_min_zero [of reservation_no_quorum "[sig42, sig42]" 100 "[]"]
  show ?thesis by blast
qed

subsection \<open>Idempotence\<close>

text \<open>
  C7. The pipeline is idempotent at a fixed clock value: a second pass over the
  output of a first pass returns that output unchanged and reports no change.
\<close>

theorem Next_idempotent: "Next (fst (Next r now)) now = (fst (Next r now), False)"
proof (cases "NextAction r = NextActionDelete \<or> NextAction r = NextActionDeleted")
  case True
  then show ?thesis by (simp add: Next_terminal)
next
  case live: False
  show ?thesis
  proof (cases "delete_due r now")
    case True
    with live show ?thesis by (simp add: Next_delete_due Next_terminal)
  next
    case False
    with live have n: "Next r now = next_loop r (NextAction r) False"
      by (simp add: Next_live)
    show ?thesis
    proof (cases "NextAction r")
      case NextActionCreate
      with False show ?thesis
        by (simp add: n next_loop_result Next_live)
    next
      case NextActionSign
      with False show ?thesis
        by (simp add: n next_loop_result Next_live)
    next
      case NextActionPay
      with False show ?thesis
        by (simp add: n next_loop_result Next_live)
    next
      case NextActionDeploy
      with False show ?thesis
        by (simp add: n next_loop_result Next_live)
    next
      case NextActionInvalid
      with False show ?thesis
        by (simp add: n next_loop_result Next_live)
    qed (use live in simp_all)
  qed
qed

theorem Next_idempotent_witness:
  "fst (Next (reservation_example NextActionCreate) 100)
     = (reservation_example NextActionCreate)\<lparr>NextAction := NextActionPay\<rparr>
   \<and> Next ((reservation_example NextActionCreate)\<lparr>NextAction := NextActionPay\<rparr>) 100
     = ((reservation_example NextActionCreate)\<lparr>NextAction := NextActionPay\<rparr>, False)"
proof -
  have f: "fst (Next (reservation_example NextActionCreate) 100)
     = (reservation_example NextActionCreate)\<lparr>NextAction := NextActionPay\<rparr>"
    by (simp add: Next_def next_loop_result Expired_def checkDeleteSignatures_def
        checkProvisionSignatures_def example_defs)
  from Next_idempotent [of "reservation_example NextActionCreate" 100] f
  show ?thesis by simp
qed

section \<open>Properties of the currency admission\<close>

lemma filter_loop_no_free:
  "(\<forall>j. i \<le> j \<and> j < N \<longrightarrow> arr ! j \<noteq> freeTFT) \<Longrightarrow> filter_loop [i..<N] arr n = Inr (arr, n)"
proof (induction "N - i" arbitrary: i)
  case 0
  then show ?case by simp
next
  case (Suc m)
  then have "i < N" by simp
  then have u: "[i..<N] = i # [Suc i..<N]" by (rule upt_conv_Cons)
  have "arr ! i \<noteq> freeTFT" using Suc.prems \<open>i < N\<close> by simp
  moreover have "filter_loop [Suc i..<N] arr n = Inr (arr, n)"
    using Suc.hyps Suc.prems by (intro Suc.hyps(1)) auto
  ultimately show ?case by (simp add: u)
qed

lemma filter_loop_stale_free:
  "n \<le> i \<Longrightarrow> i \<le> j \<Longrightarrow> j < N \<Longrightarrow> arr ! j = freeTFT \<Longrightarrow> isl (filter_loop [i..<N] arr n)"
proof (induction "N - i" arbitrary: i)
  case 0
  then show ?case by simp
next
  case (Suc m)
  then have "i < N" by simp
  then have u: "[i..<N] = i # [Suc i..<N]" by (rule upt_conv_Cons)
  show ?case
  proof (cases "arr ! i = freeTFT")
    case True
    with Suc.prems(1) show ?thesis by (simp add: u remove_at_def)
  next
    case False
    with Suc.prems have "Suc i \<le> j" by (cases "i = j") auto
    moreover have "n \<le> Suc i" using Suc.prems by simp
    moreover have "m = N - Suc i" using Suc.hyps(2) by simp
    ultimately have "isl (filter_loop [Suc i..<N] arr n)"
      using Suc.prems by (intro Suc.hyps(1)) auto
    with False show ?thesis by (simp add: u)
  qed
qed

lemma drop_to_last: "drop (length rest) (c # rest @ stale) = last (c # rest) # stale"
  by (induction rest arbitrary: c) simp_all

text \<open>
  The slice as its live cells \<open>pre @ c # rest\<close> followed by the stale cells of the
  backing array: removing \<open>c\<close> leaves a copy of the last live cell behind.
\<close>

lemma remove_at_live:
  "remove_at (length pre) (pre @ c # rest @ stale, Suc (length pre + length rest))
     = Inr (pre @ rest @ last (c # rest) # stale, length pre + length rest)"
  by (simp add: remove_at_def drop_to_last del: last.simps)

lemma single_pass_removal_keep:
  "c \<noteq> freeTFT \<Longrightarrow> single_pass_removal (c # cs) = c # single_pass_removal cs"
  by (cases cs) simp_all

lemma tail_not_free:
  assumes "freeTFT \<notin> set ys" and "length xs \<le> j" and "j < length xs + length ys"
  shows "(xs @ ys) ! j \<noteq> freeTFT"
proof -
  have "j - length xs < length ys" using assms by simp
  then have "ys ! (j - length xs) \<in> set ys" by (rule nth_mem)
  moreover have "(xs @ ys) ! j = ys ! (j - length xs)"
    using assms(2) by (simp add: nth_append)
  ultimately show ?thesis using assms(1) by auto
qed

text \<open>
  While the last live cell is not \<open>FreeTFT\<close> and no stale cell is, the loop does
  not panic and computes the single-pass removal.
\<close>

lemma filter_loop_safe:
  "last (c0 # pre @ rest) \<noteq> freeTFT \<Longrightarrow> freeTFT \<notin> set stale \<Longrightarrow>
   \<exists>arr n. filter_loop [length pre..<length pre + length rest + length stale] (pre @ rest @ stale)
               (length pre + length rest) = Inr (arr, n)
           \<and> take n arr = pre @ single_pass_removal rest"
proof (induction rest arbitrary: pre stale rule: single_pass_removal.induct)
  case 1
  have "\<forall>j. length pre \<le> j \<and> j < length pre + length stale \<longrightarrow> (pre @ stale) ! j \<noteq> freeTFT"
    using tail_not_free [OF "1.prems"(2)] by auto
  then have "filter_loop [length pre..<length pre + length stale] (pre @ stale) (length pre)
      = Inr (pre @ stale, length pre)"
    by (rule filter_loop_no_free)
  then show ?case by simp
next
  case (2 c)
  have c: "c \<noteq> freeTFT" using "2.prems"(1) by simp
  have cs: "freeTFT \<notin> set (c # stale)" using "2.prems"(2) c by auto
  have "\<forall>j. length pre \<le> j \<and> j < length pre + length (c # stale) \<longrightarrow> (pre @ c # stale) ! j \<noteq> freeTFT"
    using tail_not_free [OF cs] by auto
  then have "\<forall>j. length pre \<le> j \<and> j < length pre + 1 + length stale \<longrightarrow> (pre @ [c] @ stale) ! j \<noteq> freeTFT"
    by simp
  then have "filter_loop [length pre..<length pre + 1 + length stale] (pre @ [c] @ stale) (length pre + 1)
      = Inr (pre @ [c] @ stale, length pre + 1)"
    by (rule filter_loop_no_free)
  with c show ?case by simp
next
  case (3 c d cs)
  have lt: "length pre < length pre + length (c # d # cs) + length stale" by simp
  have u0: "[length pre..<length pre + length (c # d # cs) + length stale]
      = length pre # [Suc (length pre)..<length pre + length (c # d # cs) + length stale]"
    using lt by (rule upt_conv_Cons)
  have u: "[length pre..<length pre + length (c # d # cs) + length stale]
      = length pre # [length (pre @ [d])..<length (pre @ [d]) + length cs + length (last (d # cs) # stale)]"
    unfolding u0 by simp
  have u2: "[length pre..<length pre + length (c # d # cs) + length stale]
      = length pre # [length (pre @ [c])..<length (pre @ [c]) + length (d # cs) + length stale]"
    unfolding u0 by simp
  show ?case
  proof (cases "c = freeTFT")
    case True
    have l: "last (c0 # (pre @ [d]) @ cs) \<noteq> freeTFT" using "3.prems"(1) by simp
    have s: "freeTFT \<notin> set (last (d # cs) # stale)" using "3.prems" by auto
    from "3.IH"(1) [OF True l s]
    obtain arr n where
      r: "filter_loop [length (pre @ [d])..<length (pre @ [d]) + length cs + length (last (d # cs) # stale)]
            ((pre @ [d]) @ cs @ last (d # cs) # stale) (length (pre @ [d]) + length cs) = Inr (arr, n)"
      and t: "take n arr = (pre @ [d]) @ single_pass_removal cs"
      by blast
    have rm: "remove_at (length pre) (pre @ c # (d # cs) @ stale, Suc (length pre + length (d # cs)))
        = Inr (pre @ (d # cs) @ last (c # d # cs) # stale, length pre + length (d # cs))"
      by (rule remove_at_live)
    have "filter_loop [length pre..<length pre + length (c # d # cs) + length stale]
            (pre @ (c # d # cs) @ stale) (length pre + length (c # d # cs)) = Inr (arr, n)"
      unfolding u using True rm r by (simp add: nth_append)
    with t True show ?thesis by auto
  next
    case False
    have l: "last (c0 # (pre @ [c]) @ d # cs) \<noteq> freeTFT" using "3.prems"(1) by simp
    from "3.IH"(2) [OF False l "3.prems"(2)]
    obtain arr n where
      r: "filter_loop [length (pre @ [c])..<length (pre @ [c]) + length (d # cs) + length stale]
            ((pre @ [c]) @ (d # cs) @ stale) (length (pre @ [c]) + length (d # cs)) = Inr (arr, n)"
      and t: "take n arr = (pre @ [c]) @ single_pass_removal (d # cs)"
      by blast
    have "filter_loop [length pre..<length pre + length (c # d # cs) + length stale]
            (pre @ (c # d # cs) @ stale) (length pre + length (c # d # cs)) = Inr (arr, n)"
      unfolding u2 using False r by (simp add: nth_append)
    with t False show ?thesis by auto
  qed
qed

text \<open>A single \<open>FreeTFT\<close> in the last place is removed without a panic.\<close>

lemma filter_loop_last_only:
  "freeTFT \<notin> set (butlast rest) \<Longrightarrow>
   \<exists>arr n. filter_loop [length pre..<length pre + length rest] (pre @ rest)
               (length pre + length rest) = Inr (arr, n)
           \<and> take n arr = pre @ single_pass_removal rest"
proof (induction rest arbitrary: pre rule: single_pass_removal.induct)
  case 1
  show ?case by simp
next
  case (2 c)
  have u: "[length pre..<length pre + length [c]] = [length pre]" by simp
  have rm: "remove_at (length pre) (pre @ c # [] @ [], Suc (length pre + length ([] :: string list)))
      = Inr (pre @ [] @ last (c # []) # [], length pre + length ([] :: string list))"
    by (rule remove_at_live)
  show ?case
  proof (cases "c = freeTFT")
    case True
    with rm show ?thesis unfolding u by simp
  next
    case False
    then show ?thesis unfolding u by simp
  qed
next
  case (3 c d cs)
  have c: "c \<noteq> freeTFT" using "3.prems" by auto
  have b: "freeTFT \<notin> set (butlast (d # cs))" using "3.prems" by auto
  have lt: "length pre < length pre + length (c # d # cs)" by simp
  have u0: "[length pre..<length pre + length (c # d # cs)]
      = length pre # [Suc (length pre)..<length pre + length (c # d # cs)]"
    using lt by (rule upt_conv_Cons)
  have u2: "[length pre..<length pre + length (c # d # cs)]
      = length pre # [length (pre @ [c])..<length (pre @ [c]) + length (d # cs)]"
    unfolding u0 by simp
  from "3.IH"(2) [OF c b]
  obtain arr n where
    r: "filter_loop [length (pre @ [c])..<length (pre @ [c]) + length (d # cs)]
          ((pre @ [c]) @ d # cs) (length (pre @ [c]) + length (d # cs)) = Inr (arr, n)"
    and t: "take n arr = (pre @ [c]) @ single_pass_removal (d # cs)"
    by blast
  have "filter_loop [length pre..<length pre + length (c # d # cs)]
          (pre @ c # d # cs) (length pre + length (c # d # cs)) = Inr (arr, n)"
    unfolding u2 using c r by (simp add: nth_append)
  with t c show ?case by auto
qed

lemma last_cell: "xs \<noteq> [] \<Longrightarrow> (pre @ xs) ! (length pre + (length xs - Suc 0)) = last xs"
  by (simp add: last_conv_nth)

text \<open>
  When the last cell of the backing array holds \<open>FreeTFT\<close> and a removal has
  happened or lies ahead of the last live cell, the loop reaches a stale
  \<open>FreeTFT\<close> and panics.
\<close>

lemma filter_loop_panics:
  "rest @ stale \<noteq> [] \<Longrightarrow> last (rest @ stale) = freeTFT \<Longrightarrow>
   stale \<noteq> [] \<or> freeTFT \<in> set (butlast rest) \<Longrightarrow>
   isl (filter_loop [length pre..<length pre + length rest + length stale] (pre @ rest @ stale)
          (length pre + length rest))"
proof (induction rest arbitrary: pre stale rule: single_pass_removal.induct)
  case 1
  then have s: "stale \<noteq> []" and l: "last stale = freeTFT" by simp_all
  from s have sl: "Suc 0 \<le> length stale" by (cases stale) simp_all
  have "isl (filter_loop [length pre..<length pre + length stale] (pre @ stale) (length pre))"
  proof (rule filter_loop_stale_free [where j = "length pre + (length stale - Suc 0)"])
    have "(pre @ stale) ! (length pre + (length stale - Suc 0)) = last stale"
      using s by (rule last_cell)
    then show "(pre @ stale) ! (length pre + (length stale - Suc 0)) = freeTFT"
      unfolding l .
  qed (use s sl in auto)
  then show ?case by simp
next
  case (2 c)
  then have s: "stale \<noteq> []" by simp
  then have sl: "Suc 0 \<le> length stale" by (cases stale) simp_all
  from s "2.prems"(2) have l: "last stale = freeTFT" by simp
  have lt: "length pre < length pre + length [c] + length stale" by simp
  have u: "[length pre..<length pre + length [c] + length stale]
      = length pre # [Suc (length pre)..<length pre + length [c] + length stale]"
    using lt by (rule upt_conv_Cons)
  have cell: "(pre @ x # stale) ! (length pre + (length (x # stale) - Suc 0)) = freeTFT" for x
  proof -
    have "(pre @ x # stale) ! (length pre + (length (x # stale) - Suc 0)) = last (x # stale)"
      by (rule last_cell) simp
    also have "last (x # stale) = freeTFT" using s l by simp
    finally show ?thesis .
  qed
  show ?case
  proof (cases "c = freeTFT")
    case True
    have rm: "remove_at (length pre) (pre @ c # [] @ stale, Suc (length pre + length ([] :: string list)))
        = Inr (pre @ [] @ last (c # []) # stale, length pre + length ([] :: string list))"
      by (rule remove_at_live)
    have "isl (filter_loop [Suc (length pre)..<length pre + length [c] + length stale]
                 (pre @ c # stale) (length pre))"
    proof (rule filter_loop_stale_free [where j = "length pre + (length (c # stale) - Suc 0)"])
      show "(pre @ c # stale) ! (length pre + (length (c # stale) - Suc 0)) = freeTFT"
        by (rule cell)
    qed (use s sl in auto)
    with True rm show ?thesis unfolding u by (simp add: nth_append)
  next
    case False
    have "isl (filter_loop [Suc (length pre)..<length pre + length [c] + length stale]
                 (pre @ c # stale) (Suc (length pre)))"
    proof (rule filter_loop_stale_free [where j = "length pre + (length (c # stale) - Suc 0)"])
      show "(pre @ c # stale) ! (length pre + (length (c # stale) - Suc 0)) = freeTFT"
        by (rule cell)
    qed (use s sl in auto)
    with False show ?thesis unfolding u by (simp add: nth_append)
  qed
next
  case (3 c d cs)
  have lt: "length pre < length pre + length (c # d # cs) + length stale" by simp
  have u0: "[length pre..<length pre + length (c # d # cs) + length stale]
      = length pre # [Suc (length pre)..<length pre + length (c # d # cs) + length stale]"
    using lt by (rule upt_conv_Cons)
  have u: "[length pre..<length pre + length (c # d # cs) + length stale]
      = length pre # [length (pre @ [d])..<length (pre @ [d]) + length cs + length (last (d # cs) # stale)]"
    unfolding u0 by simp
  have u2: "[length pre..<length pre + length (c # d # cs) + length stale]
      = length pre # [length (pre @ [c])..<length (pre @ [c]) + length (d # cs) + length stale]"
    unfolding u0 by simp
  show ?case
  proof (cases "c = freeTFT")
    case True
    have a: "cs @ last (d # cs) # stale \<noteq> []" by simp
    have b: "last (cs @ last (d # cs) # stale) = freeTFT"
      using "3.prems"(2) by (cases "stale = []") simp_all
    have e: "last (d # cs) # stale \<noteq> [] \<or> freeTFT \<in> set (butlast cs)" by simp
    from "3.IH"(1) [OF True a b e]
    have r: "isl (filter_loop
        [length (pre @ [d])..<length (pre @ [d]) + length cs + length (last (d # cs) # stale)]
        ((pre @ [d]) @ cs @ last (d # cs) # stale) (length (pre @ [d]) + length cs))" .
    have rm: "remove_at (length pre) (pre @ c # (d # cs) @ stale, Suc (length pre + length (d # cs)))
        = Inr (pre @ (d # cs) @ last (c # d # cs) # stale, length pre + length (d # cs))"
      by (rule remove_at_live)
    show ?thesis unfolding u using True rm r by (simp add: nth_append)
  next
    case False
    have a: "(d # cs) @ stale \<noteq> []" by simp
    have b: "last ((d # cs) @ stale) = freeTFT" using "3.prems"(2) by simp
    have e: "stale \<noteq> [] \<or> freeTFT \<in> set (butlast (d # cs))"
      using "3.prems"(3) False by auto
    from "3.IH"(2) [OF False a b e]
    have r: "isl (filter_loop
        [length (pre @ [c])..<length (pre @ [c]) + length (d # cs) + length stale]
        ((pre @ [c]) @ (d # cs) @ stale) (length (pre @ [c]) + length (d # cs)))" .
    show ?thesis unfolding u2 using False r by (simp add: nth_append)
  qed
qed

text \<open>
  The currency admission on every input: when \<open>freeNodes < paidNodes\<close> the request
  panics exactly on the lists that end with \<open>FreeTFT\<close> and hold another one
  before, and on every other list the escrow receives the single-pass removal; when
  every referenced node is free to use the list is forwarded as it is.
\<close>

lemma admitted_currencies_characterisation:
  "admitted_currencies freeNodes paidNodes declared =
     (if freeNodes < paidNodes
      then (if declared \<noteq> [] \<and> last declared = freeTFT \<and> freeTFT \<in> set (butlast declared)
            then Inl (projl (admitted_currencies freeNodes paidNodes declared))
            else Inr (single_pass_removal declared))
      else Inr declared)"
proof (cases "freeNodes < paidNodes")
  case False
  then show ?thesis by (simp add: admitted_currencies_def)
next
  case lt: True
  show ?thesis
  proof (cases "declared \<noteq> [] \<and> last declared = freeTFT \<and> freeTFT \<in> set (butlast declared)")
    case True
    then have "isl (filter_loop
        [length ([] :: string list)..<length ([] :: string list) + length declared + length ([] :: string list)]
        ([] @ declared @ []) (length ([] :: string list) + length declared))"
      by (intro filter_loop_panics) auto
    then have "isl (filter_loop [0..<length declared] declared (length declared))" by simp
    then have "isl (admitted_currencies freeNodes paidNodes declared)"
      using lt by (auto simp: admitted_currencies_def isl_def)
    with lt True show ?thesis by simp
  next
    case False
    have "\<exists>arr n. filter_loop [0..<length declared] declared (length declared) = Inr (arr, n)
        \<and> take n arr = single_pass_removal declared"
    proof (cases "declared \<noteq> [] \<and> last declared = freeTFT")
      case True
      with False have "freeTFT \<notin> set (butlast declared)" by simp
      from filter_loop_last_only [OF this, of "[]"] show ?thesis by simp
    next
      case False
      then have "last ([] # [] @ declared) \<noteq> freeTFT" by (auto simp: freeTFT_def)
      from filter_loop_safe [OF this, of "[]"] show ?thesis by simp
    qed
    with lt False show ?thesis by (auto simp: admitted_currencies_def)
  qed
qed

text \<open>
  C4. The claim holds wherever the loop completes (the lemma above), and the scenario
  of the spec comes out as stated; but on the declared list \<open>[FreeTFT, FreeTFT]\<close>,
  where the claim leaves the second \<open>FreeTFT\<close> in place and hands \<open>[FreeTFT]\<close>
  to the escrow, the loop reads the stale second cell at index 1, slices
  \<open>currencies[2:]\<close> on a slice of length 1 and panics.
\<close>

theorem admitted_currencies_duplicate_panics:
  "admitted_currencies 1 2 [''FreeTFT'', ''FreeTFT''] = Inl (SliceBoundsOutOfRange 2 1)
   \<and> single_pass_removal [''FreeTFT'', ''FreeTFT''] = [''FreeTFT'']
   \<and> admitted_currencies 1 2 [''FreeTFT'', ''TFT''] = Inr [''TFT'']
   \<and> admitted_currencies 1 2 [''FreeTFT'', ''FreeTFT'', ''TFT''] = Inr [''FreeTFT'', ''TFT'']"
  by (simp add: admitted_currencies_def remove_at_def freeTFT_def upt_rec)

section \<open>Properties of the node poll\<close>

lemma length_queued: "0 < limit \<Longrightarrow> length (queued db nodeID limit) \<le> limit"
  by (simp add: queued_def)

text \<open>
  The early return of \<open>API.workloads\<close> is never taken: the queue query is limited
  to \<open>maxPageSize\<close> rows, and the test asks for more than \<open>maxPageSize\<close>.
\<close>

lemma workloads_never_returns_early: "snd (snd (workloads db nodeID from_value now)) \<noteq> None"
proof -
  have "length (queued db nodeID maxPageSize) \<le> maxPageSize"
    by (rule length_queued) (simp add: maxPageSize_def)
  then have "\<not> maxPageSize < length (queued db nodeID maxPageSize)" by simp
  then show ?thesis
    by (simp add: workloads_def Let_def split: option.splits prod.splits)
qed

lemma queued_full: "queued db_full_queue ''N1'' 200 = replicate 200 queue_row"
  by (simp add: queued_def db_full_queue_def queue_row_def)

lemma parseID_0: "parseID ''0'' = Some 0"
  by (simp add: parseID_def ParseInt_def digit_of_def)

lemma parseID_7: "parseID ''7'' = Some 7"
  by (simp add: parseID_def ParseInt_def digit_of_def)

lemma pipeline_deploy:
  "pipeline (reservation_example NextActionDeploy) 100 = reservation_example NextActionDeploy"
  by (simp add: pipeline_def Next_def next_loop_result Expired_def checkDeleteSignatures_def
      IsSuccessfullyDeployed_def Workloads_def example_defs)

text \<open>
  C3. With 200 queue rows for node \<open>N1\<close> and one reservation in \<open>Deploy\<close> that
  has a workload on \<open>N1\<close>, the queue alone reaches the limit, yet the handler scans
  the reservation, answers with the \<open>x-last-id\<close> header and returns 201 entries.
\<close>

theorem workloads_full_queue:
  "workloads db_full_queue ''N1'' ''0'' 100
     = (db_full_queue, Some (replicate 200 queue_row @ [workload_n1]), Some (Ok_last_id 7))"
proof -
  have t: "touches_node (reservation_example NextActionDeploy) ''N1''"
    by (simp add: touches_node_def example_defs)
  have w: "Workloads (reservation_example NextActionDeploy) ''N1'' = [workload_n1]"
    by (simp add: Workloads_def example_defs)
  have l: "ReservationLastID db_full_queue = 7"
    by (simp add: ReservationLastID_def db_full_queue_def example_defs)
  have i: "ID (reservation_example NextActionDeploy) = 7"
    "NextAction (reservation_example NextActionDeploy) = NextActionDeploy"
    by (simp_all add: example_defs)
  have r: "reservations db_full_queue = [reservation_example NextActionDeploy]"
    by (simp add: db_full_queue_def)
  show ?thesis
    by (simp add: workloads_def maxPageSize_def queued_full parseID_0 l r t i pipeline_deploy w
        IsAny_def)
qed

section \<open>Properties of reading one workload\<close>

lemma collect_result_take:
  "collect_result results wid acc = acc @ take 1 (filter (\<lambda>rs. ResultWorkloadId rs = wid) results)"
  by (induction results arbitrary: acc) auto

text \<open>A pass of the pipeline changes nothing of a reservation but its next action.\<close>

lemma Next_fields: "\<exists>a. fst (Next r now) = r\<lparr>NextAction := a\<rparr>"
proof (cases "NextAction r = NextActionDelete \<or> NextAction r = NextActionDeleted")
  case True
  then have "fst (Next r now) = r\<lparr>NextAction := NextAction r\<rparr>" by (simp add: Next_terminal)
  then show ?thesis ..
next
  case live: False
  show ?thesis
  proof (cases "delete_due r now")
    case True
    with live show ?thesis by (auto simp: Next_delete_due)
  next
    case False
    with live have n: "Next r now = next_loop r (NextAction r) False" by (simp add: Next_live)
    have "fst (next_loop r (NextAction r) False)
        = r\<lparr>NextAction := NextAction (fst (next_loop r (NextAction r) False))\<rparr>"
      by (cases "NextAction r") (simp_all add: next_loop_result)
    then show ?thesis unfolding n ..
  qed
qed

lemma pipeline_Results [simp]: "Results (pipeline r now) = Results r"
  using Next_fields [of r now] by (auto simp: pipeline_def)

lemma pipeline_DataReservation [simp]: "DataReservation (pipeline r now) = DataReservation r"
  using Next_fields [of r now] by (auto simp: pipeline_def)

text \<open>
  C8, as stated, fails on the code. A reservation that stores two results for the
  workload \<open>7-1\<close> answers with the first of them only: the loop over the results
  is left after the first match.
\<close>

theorem workloadGet_counterexample:
  "workloadGet db_two_results ''7-1'' 100 = Inr (workload_n1, [result_ok])
   \<and> filter (\<lambda>rs. ResultWorkloadId rs = ''7-1'') [result_ok, result_deleted] = [result_ok, result_deleted]"
  by (simp add: workloadGet_def Split_first_def parseID_7 db_two_results_def Workloads_def
      result_ok_def result_deleted_def example_defs)

text \<open>
  C8, amended. For a workload id \<open>gwid\<close> whose reservation part parses to the id of
  a stored reservation that holds a workload with that id, the response is that
  workload together with the list of the first result, in the order of the
  reservation's results list, whose \<open>workload_id\<close> equals \<open>gwid\<close> (the empty list
  if there is none). Where the reservation stores at most one result for the
  workload, this is the list of all its results.
\<close>

theorem workloadGet_first_result:
  assumes "parseID (Split_first gwid CHR ''-'') = Some rid"
    and "find (\<lambda>r. ID r = rid) (reservations db) = Some r"
    and "find (\<lambda>wl. WorkloadId wl = gwid) (DataWorkloads (DataReservation r)) = Some w"
  shows "workloadGet db gwid now
           = Inr (w, take 1 (filter (\<lambda>rs. ResultWorkloadId rs = gwid) (Results r)))
         \<and> (length (filter (\<lambda>rs. ResultWorkloadId rs = gwid) (Results r)) \<le> 1 \<longrightarrow>
            workloadGet db gwid now = Inr (w, filter (\<lambda>rs. ResultWorkloadId rs = gwid) (Results r)))"
proof -
  have g: "WorkloadId w = gwid"
    using assms(3) by (auto simp: find_Some_iff)
  have "workloadGet db gwid now
      = Inr (w, take 1 (filter (\<lambda>rs. ResultWorkloadId rs = gwid) (Results r)))"
    using assms g by (simp add: workloadGet_def Workloads_def collect_result_take)
  then show ?thesis by simp
qed

theorem workloadGet_first_result_witness:
  "parseID (Split_first ''7-1'' CHR ''-'') = Some 7
   \<and> find (\<lambda>r. ID r = 7) (reservations db_one_result)
       = Some ((reservation_example NextActionDeploy)\<lparr>Results := [result_ok]\<rparr>)
   \<and> find (\<lambda>wl. WorkloadId wl = ''7-1'')
        (DataWorkloads (DataReservation ((reservation_example NextActionDeploy)\<lparr>Results := [result_ok]\<rparr>)))
       = Some workload_n1
   \<and> length (filter (\<lambda>rs. ResultWorkloadId rs = ''7-1'')
        (Results ((reservation_example NextActionDeploy)\<lparr>Results := [result_ok]\<rparr>))) \<le> 1
   \<and> workloadGet db_one_result ''7-1'' 100 = Inr (workload_n1, [result_ok])"
proof -
  have h: "parseID (Split_first ''7-1'' CHR ''-'') = Some 7"
    "find (\<lambda>r. ID r = 7) (reservations db_one_result)
       = Some ((reservation_example NextActionDeploy)\<lparr>Results := [result_ok]\<rparr>)"
    "find (\<lambda>wl. WorkloadId wl = ''7-1'')
        (DataWorkloads (DataReservation ((reservation_example NextActionDeploy)\<lparr>Results := [result_ok]\<rparr>)))
       = Some workload_n1"
    by (simp_all add: Split_first_def parseID_7 db_one_result_def example_defs)
  have f: "filter (\<lambda>rs. ResultWorkloadId rs = ''7-1'')
        (Results ((reservation_example NextActionDeploy)\<lparr>Results := [result_ok]\<rparr>)) = [result_ok]"
    by (simp add: result_ok_def)
  from workloadGet_first_result [OF h, of 100] f h show ?thesis by simp
qed

section \<open>Properties of user creation\<close>







section \<open>Properties of the proof hash\<close>

text \<open>Neither field of \<open>kv\<close> is exported: every entry is written as the empty object.\<close>

lemma json_Marshal_kv_empty: "json_Marshal_kv enc e = ''{}''"
  by (simp add: json_Marshal_kv_def json_Marshal_struct_def kv_fields_def exported_def)

lemma map_json_Marshal_kv: "map (json_Marshal_kv enc) kvs = replicate (length kvs) ''{}''"
  by (induction kvs) (simp_all add: json_Marshal_kv_empty)

text \<open>The hash is a function of the number of keys alone.\<close>

lemma hashProof_length:
  "hashProof enc p
     = Sprintf_x (md5_New_Sum (''['' @ join (replicate (2 * length p) ''{}'') '','' @ '']''))"
  by (simp add: hashProof_def json_Marshal_kvs_def map_json_Marshal_kv Let_def mult_2)

text \<open>
  C10. \<open>hashProof\<close> ignores the content of its argument: two maps with the same
  number of keys have the same hash, whatever their keys and values are and however
  values are encoded. So the \<open>HardwareHash\<close> and the \<open>DiskHash\<close> that
  \<open>StoreProof\<close> stores are the same for every hardware and every set of disks.
\<close>

theorem hashProof_ignores_content:
  "(length p = length q \<longrightarrow> hashProof enc p = hashProof enc' q)
   \<and> HardwareHash (StoreProof enc now dmi disks hypervisor)
       = HardwareHash (StoreProof enc' now' dmi' disks' hypervisor')
   \<and> DiskHash (StoreProof enc now dmi disks hypervisor)
       = DiskHash (StoreProof enc' now' dmi' disks' hypervisor')"
  by (simp add: hashProof_length StoreProof_def)

theorem hashProof_ignores_content_witness:
  "length [(''sections'', AnyInt 1), (''tooling'', AnyString ''dmidecode'')]
     = length [(''a'', AnyList []), (''b'', AnyInt 2)]
   \<and> hashProof (\<lambda>x. ''null'') [(''sections'', AnyInt 1), (''tooling'', AnyString ''dmidecode'')]
       = hashProof (\<lambda>x. ''0'') [(''a'', AnyList []), (''b'', AnyInt 2)]
   \<and> hashProof (\<lambda>x. ''0'') [(''a'', AnyList []), (''b'', AnyInt 2)]
       = ''5b7b7d2c7b7d2c7b7d2c7b7d5dd41d8cd98f00b204e9800998ecf8427e''"
proof -
  have l: "length [(''sections'', AnyInt 1), (''tooling'', AnyString ''dmidecode'')]
     = length [(''a'', AnyList []), (''b'', AnyInt 2)]" by simp
  have v: "hashProof (\<lambda>x. ''0'') [(''a'', AnyList []), (''b'', AnyInt 2)]
       = ''5b7b7d2c7b7d2c7b7d2c7b7d5dd41d8cd98f00b204e9800998ecf8427e''"
    by code_simp
  from hashProof_ignores_content [of "[(''sections'', AnyInt 1), (''tooling'', AnyString ''dmidecode'')]"
      "[(''a'', AnyList []), (''b'', AnyInt 2)]" "\<lambda>x. ''null''" "\<lambda>x. ''0''"] l v
  show ?thesis by simp
qed

end
